theory Spec2Isabelle
  imports Main "HOL-Library.Monad_Syntax"
begin

section \<open>The n-tuple network agent of agent.h\<close>

text \<open>
  This theory embeds \<^verbatim>\<open>weight_agent\<close> of \<^verbatim>\<open>src/agent.h\<close>: the value estimate
  \<^verbatim>\<open>v_value\<close>, the weight update \<^verbatim>\<open>adjust_table\<close>, the episode hooks
  \<^verbatim>\<open>open_episode\<close> and \<^verbatim>\<open>close_episode\<close>, the policy \<^verbatim>\<open>take_action\<close>, and
  the table set-up and persistence \<^verbatim>\<open>init_weights\<close>, \<^verbatim>\<open>load_weights\<close>,
  \<^verbatim>\<open>save_weights\<close>. Every member function is a HOL function that takes the object
  (a record of its fields) and returns the updated object. An access outside a vector
  is undefined behaviour in C++: it is the result \<open>None\<close>.
\<close>

subsection \<open>Float arithmetic\<close>

text \<open>
  The weights, the learning rate and the value estimates are C++ \<^verbatim>\<open>float\<close>s. The float
  operations the code applies are a parameter of the model: a record holding
  \<^verbatim>\<open>+\<close>, \<^verbatim>\<open>-\<close>, \<^verbatim>\<open>*\<close>, \<^verbatim>\<open>>\<close>, \<^verbatim>\<open>==\<close>, the conversion from \<^verbatim>\<open>int\<close>, the constant
  \<^verbatim>\<open>-std::numeric_limits<float>::max()\<close> and \<^verbatim>\<open>std::stod\<close> followed by the cast to
  float (\<open>None\<close> when \<^verbatim>\<open>stod\<close> throws). A theorem stated for every such record holds
  for IEEE 754 single precision with its rounding, infinities and NaN.
\<close>

record 'f arith =
  f_add :: "'f \<Rightarrow> 'f \<Rightarrow> 'f"
  f_sub :: "'f \<Rightarrow> 'f \<Rightarrow> 'f"
  f_mul :: "'f \<Rightarrow> 'f \<Rightarrow> 'f"
  f_gt :: "'f \<Rightarrow> 'f \<Rightarrow> bool"
  f_eq :: "'f \<Rightarrow> 'f \<Rightarrow> bool"
  f_of_int :: "int \<Rightarrow> 'f"
  f_lowest :: 'f
  f_stod :: "string \<Rightarrow> 'f option"

subsection \<open>Boards, actions and weight tables\<close>

text \<open>
  Modelled from the spec: \<^verbatim>\<open>board.h\<close> is not among the sources. A board is a grid of
  16 cells, each holding a rank; \<^verbatim>\<open>after(i)\<close> reads cell \<open>i\<close>. The code reads the
  cells 0 to 15 only. \<^verbatim>\<open>board::slide\<close> is a parameter of type
  \<open>board \<Rightarrow> int \<Rightarrow> board \<times> int\<close>: the board it leaves and the reward, \<open>-1\<close>
  for an illegal move. \<open>default_board\<close> is the default-constructed board.
\<close>

type_synonym board = "nat \<Rightarrow> nat"

definition default_board :: board where
  "default_board = (\<lambda>_. 0)"

text \<open>
  Modelled from the spec: \<^verbatim>\<open>action.h\<close> is not among the sources. The spec lists the
  three ways the code builds an action: \<^verbatim>\<open>action::slide(op)\<close>,
  \<^verbatim>\<open>action::place(pos, tile)\<close> and the null action \<^verbatim>\<open>action()\<close>.
\<close>

datatype action = action_slide int | action_place nat nat | action_none

text \<open>
  Modelled from the spec: \<^verbatim>\<open>weight.h\<close> is not among the sources. A weight table is a
  dense array of floats indexed by a feature index.
\<close>

type_synonym 'f weight = "'f list"

subsection \<open>The agent\<close>

record 'f weight_agent =
  meta :: "string \<rightharpoonup> string"
  net :: "'f weight list"
  alpha :: 'f
  reward_history :: "int list"
  board_history :: "board list"

text \<open>\<^verbatim>\<open>v[i]\<close> on a \<^verbatim>\<open>std::vector\<close>.\<close>

definition vec_at :: "'a list \<Rightarrow> nat \<Rightarrow> 'a option" where
  "vec_at v i = (if i < length v then Some (v ! i) else None)"

text \<open>\<^verbatim>\<open>net[k][i]\<close> as a read, and \<^verbatim>\<open>net[k][i] += d\<close>.\<close>

definition entry :: "'f weight_agent \<Rightarrow> nat \<Rightarrow> nat \<Rightarrow> 'f option" where
  "entry s k i =
     (if k < length (net s) \<and> i < length (net s ! k) then Some (net s ! k ! i) else None)"

definition add_entry :: "'f arith \<Rightarrow> 'f weight_agent \<Rightarrow> nat \<Rightarrow> nat \<Rightarrow> 'f \<Rightarrow> 'f weight_agent option" where
  "add_entry ar s k i d =
     (if k < length (net s) \<and> i < length (net s ! k)
      then Some (s\<lparr>net := (net s)[k := (net s ! k)[i := f_add ar (net s ! k ! i) d]]\<rparr>)
      else None)"

definition v_value :: "'f arith \<Rightarrow> 'f weight_agent \<Rightarrow> board \<Rightarrow> 'f option" where
  "v_value ar s after = do {
     let val = f_of_int ar 0;
     w \<leftarrow> entry s 0 (after 0 * 25 * 25 * 25 + after 1 * 25 * 25 + after 2 * 25 + after 3);
     let val = f_add ar val w;
     w \<leftarrow> entry s 1 (after 4 * 25 * 25 * 25 + after 5 * 25 * 25 + after 6 * 25 + after 7);
     let val = f_add ar val w;
     w \<leftarrow> entry s 2 (after 8 * 25 * 25 * 25 + after 9 * 25 * 25 + after 10 * 25 + after 11);
     let val = f_add ar val w;
     w \<leftarrow> entry s 3 (after 12 * 25 * 25 * 25 + after 13 * 25 * 25 + after 14 * 25 + after 15);
     let val = f_add ar val w;
     w \<leftarrow> entry s 4 (after 0 * 25 * 25 * 25 + after 4 * 25 * 25 + after 8 * 25 + after 12);
     let val = f_add ar val w;
     w \<leftarrow> entry s 5 (after 1 * 25 * 25 * 25 + after 5 * 25 * 25 + after 9 * 25 + after 13);
     let val = f_add ar val w;
     w \<leftarrow> entry s 6 (after 2 * 25 * 25 * 25 + after 6 * 25 * 25 + after 10 * 25 + after 14);
     let val = f_add ar val w;
     w \<leftarrow> entry s 7 (after 3 * 25 * 25 * 25 + after 7 * 25 * 25 + after 11 * 25 + after 15);
     let val = f_add ar val w;
     Some val
   }"

definition adjust_table :: "'f arith \<Rightarrow> 'f weight_agent \<Rightarrow> board \<Rightarrow> 'f \<Rightarrow> 'f weight_agent option" where
  "adjust_table ar s after target = do {
     current \<leftarrow> v_value ar s after;
     let error = f_sub ar target current;
     let adjust = f_mul ar (alpha s) error;
     s \<leftarrow> add_entry ar s 0 (after 0 * 25 * 25 * 25 + after 1 * 25 * 25 + after 2 * 25 + after 3) adjust;
     s \<leftarrow> add_entry ar s 1 (after 4 * 25 * 25 * 25 + after 5 * 25 * 25 + after 6 * 25 + after 7) adjust;
     s \<leftarrow> add_entry ar s 2 (after 8 * 25 * 25 * 25 + after 9 * 25 * 25 + after 10 * 25 + after 11) adjust;
     s \<leftarrow> add_entry ar s 3 (after 12 * 25 * 25 * 25 + after 13 * 25 * 25 + after 14 * 25 + after 15) adjust;
     s \<leftarrow> add_entry ar s 4 (after 0 * 25 * 25 * 25 + after 4 * 25 * 25 + after 8 * 25 + after 12) adjust;
     s \<leftarrow> add_entry ar s 5 (after 1 * 25 * 25 * 25 + after 5 * 25 * 25 + after 9 * 25 + after 13) adjust;
     s \<leftarrow> add_entry ar s 6 (after 2 * 25 * 25 * 25 + after 6 * 25 * 25 + after 10 * 25 + after 14) adjust;
     s \<leftarrow> add_entry ar s 7 (after 3 * 25 * 25 * 25 + after 7 * 25 * 25 + after 11 * 25 + after 15) adjust;
     Some s
   }"

subsection \<open>Episodes\<close>

definition open_episode :: "string \<Rightarrow> 'f weight_agent \<Rightarrow> 'f weight_agent" where
  "open_episode flag s = (let s = s\<lparr>reward_history := []\<rparr> in s\<lparr>board_history := []\<rparr>)"

text \<open>
  \<^verbatim>\<open>int t = board_history.size() - 2\<close>: the subtraction is in \<^verbatim>\<open>size_t\<close> (64 bits,
  wrapping), and the conversion to \<^verbatim>\<open>int\<close> keeps the low 32 bits as a signed value.
\<close>

definition size_minus_2 :: "nat \<Rightarrow> int" where
  "size_minus_2 n =
     (let u = (int n - 2) mod 2 ^ 64;
          w = u mod 2 ^ 32
      in if w < 2 ^ 31 then w else w - 2 ^ 32)"

text \<open>\<^verbatim>\<open>t + 1\<close> on an \<^verbatim>\<open>int\<close>: signed overflow is undefined behaviour.\<close>

definition int_succ :: "int \<Rightarrow> int option" where
  "int_succ t = (if t < 2147483647 then Some (t + 1) else None)"

function close_episode_loop :: "'f arith \<Rightarrow> int \<Rightarrow> 'f weight_agent \<Rightarrow> 'f weight_agent option" where
  "close_episode_loop ar t s =
     (if t \<ge> 0 then do {
        b \<leftarrow> vec_at (board_history s) (nat t);
        t1 \<leftarrow> int_succ t;
        r \<leftarrow> vec_at (reward_history s) (nat t1);
        b1 \<leftarrow> vec_at (board_history s) (nat t1);
        v \<leftarrow> v_value ar s b1;
        s \<leftarrow> adjust_table ar s b (f_add ar (f_of_int ar r) v);
        close_episode_loop ar (t - 1) s
      } else Some s)"
  by pat_completeness auto
termination
  by (relation "measure (\<lambda>(ar, t, s). nat (t + 1))") auto

declare close_episode_loop.simps [simp del]

definition close_episode :: "'f arith \<Rightarrow> string \<Rightarrow> 'f weight_agent \<Rightarrow> 'f weight_agent option" where
  "close_episode ar flag s =
     (if board_history s = [] then Some s
      else if f_eq ar (alpha s) (f_of_int ar 0) then Some s
      else do {
        b \<leftarrow> vec_at (board_history s) (length (board_history s) - 1);
        s \<leftarrow> adjust_table ar s b (f_of_int ar 0);
        close_episode_loop ar (size_minus_2 (length (board_history s))) s
      })"

subsection \<open>The policy\<close>

text \<open>
  The variables of \<^verbatim>\<open>take_action\<close> that live across the loop: the caller's board
  \<^verbatim>\<open>before\<close> (passed by reference) and the four locals. The copy \<^verbatim>\<open>after\<close> is local
  to the loop body.
\<close>

record 'f locals =
  before :: board
  best_move :: int
  max_reward :: int
  max_val :: 'f
  next_board :: board

function take_action_loop ::
  "'f arith \<Rightarrow> (board \<Rightarrow> int \<Rightarrow> board \<times> int) \<Rightarrow> 'f weight_agent \<Rightarrow> int \<Rightarrow> 'f locals \<Rightarrow> 'f locals option" where
  "take_action_loop ar slide s op l =
     (if op < 4 then
        (let after = before l;
             after_r = slide after op;
             after = fst after_r;
             r = snd after_r
         in if r = - 1 then take_action_loop ar slide s (op + 1) l
            else do {
              val \<leftarrow> v_value ar s after;
              take_action_loop ar slide s (op + 1)
                (if f_gt ar (f_add ar (f_of_int ar r) val)
                            (f_add ar (f_of_int ar (max_reward l)) (max_val l))
                 then l\<lparr>best_move := op, max_reward := r, max_val := val, next_board := after\<rparr>
                 else l)
            })
      else Some l)"
  by pat_completeness auto
termination
  by (relation "measure (\<lambda>(ar, slide, s, op, l). nat (4 - op))") auto

declare take_action_loop.simps [simp del]

text \<open>
  The result of \<^verbatim>\<open>take_action\<close>: the action returned, the agent, and the caller's board
  as the call leaves it.
\<close>

definition take_action ::
  "'f arith \<Rightarrow> (board \<Rightarrow> int \<Rightarrow> board \<times> int) \<Rightarrow> 'f weight_agent \<Rightarrow> board
     \<Rightarrow> (action \<times> 'f weight_agent \<times> board) option" where
  "take_action ar slide s input = do {
     let l = \<lparr>before = input, best_move = - 1, max_reward = - 1, max_val = f_lowest ar,
              next_board = default_board\<rparr>;
     l \<leftarrow> take_action_loop ar slide s 0 l;
     let s = (if best_move l \<noteq> - 1
              then (let s = s\<lparr>reward_history := reward_history s @ [max_reward l]\<rparr>
                    in s\<lparr>board_history := board_history s @ [next_board l]\<rparr>)
              else s);
     Some (action_slide (best_move l), s, before l)
   }"

subsection \<open>Weight tables: set-up and persistence\<close>

text \<open>
  Modelled from the spec: the constructor \<^verbatim>\<open>weight(size_t len)\<close> is in \<^verbatim>\<open>weight.h\<close>,
  which is not among the sources. \<^verbatim>\<open>net.emplace_back(len)\<close> appends a table of
  \<open>len\<close> entries, freshly zero-initialised.
\<close>

definition emplace_back :: "'f arith \<Rightarrow> nat \<Rightarrow> 'f weight_agent \<Rightarrow> 'f weight_agent" where
  "emplace_back ar len s = s\<lparr>net := net s @ [replicate len (f_of_int ar 0)]\<rparr>"

definition init_weights :: "'f arith \<Rightarrow> string \<Rightarrow> 'f weight_agent \<Rightarrow> 'f weight_agent" where
  "init_weights ar info s =
     (let s = emplace_back ar (25 * 25 * 25 * 25) s;
          s = emplace_back ar (25 * 25 * 25 * 25) s;
          s = emplace_back ar (25 * 25 * 25 * 25) s;
          s = emplace_back ar (25 * 25 * 25 * 25) s;
          s = emplace_back ar (25 * 25 * 25 * 25) s;
          s = emplace_back ar (25 * 25 * 25 * 25) s;
          s = emplace_back ar (25 * 25 * 25 * 25) s;
          s = emplace_back ar (25 * 25 * 25 * 25) s
      in s)"

text \<open>
  Modelled from the spec: the stream operators \<^verbatim>\<open><<\<close> and \<^verbatim>\<open>>>\<close> of \<^verbatim>\<open>weight\<close> are
  in \<^verbatim>\<open>weight.h\<close>, which is not among the sources. The spec gives the file format:
  a 4-byte unsigned count of tables, then for each table its entries as raw floats in
  table order, with no other framing. Writing a table appends its entries. Reading a
  table fills the entries the table already has, in order, from the front of the
  stream; where the stream ends early the remaining entries keep their values.
  The count of tables is a \<^verbatim>\<open>uint32_t\<close>: \<^verbatim>\<open>net.size()\<close> modulo \<open>2 ^ 32\<close>.
\<close>

record 'f weight_file =
  table_count :: nat
  table_entries :: "'f list"


definition read_weight :: "'f list \<Rightarrow> 'f weight \<Rightarrow> 'f list \<times> 'f weight" where
  "read_weight inp w =
     (let got = take (length w) inp in (drop (length w) inp, got @ drop (length got) w))"

fun read_weights :: "'f list \<Rightarrow> 'f weight list \<Rightarrow> 'f weight list" where
  "read_weights inp [] = []"
| "read_weights inp (w # ws) =
     (let inp_w = read_weight inp w in snd inp_w # read_weights (fst inp_w) ws)"

text \<open>
  The files a path names, and whether a path can be opened for writing.
  \<^verbatim>\<open>std::exit(-1)\<close> and an uncaught exception end the process: they are failures.
\<close>

record 'f filesystem =
  files :: "string \<rightharpoonup> 'f weight_file"
  can_write :: "string \<Rightarrow> bool"

datatype failure = Process_exit | Uncaught_exception

text \<open>\<^verbatim>\<open>v.resize(n)\<close> on a \<^verbatim>\<open>std::vector\<close>, with the default-constructed element.\<close>

definition vec_resize :: "'a list \<Rightarrow> nat \<Rightarrow> 'a \<Rightarrow> 'a list" where
  "vec_resize v n x = take n v @ replicate (n - length v) x"

definition load_weights :: "string \<Rightarrow> 'f filesystem \<Rightarrow> 'f weight_agent \<Rightarrow> failure + 'f weight_agent" where
  "load_weights path fsys s =
     (case files fsys path of
        None \<Rightarrow> Inl Process_exit
      | Some f \<Rightarrow>
          (let size = table_count f;
               s = s\<lparr>net := vec_resize (net s) size []\<rparr>
           in Inr (s\<lparr>net := read_weights (table_entries f) (net s)\<rparr>)))"


subsection \<open>Construction\<close>

text \<open>
  \<^verbatim>\<open>agent::agent\<close> splits its argument at white space and stores each
  \<^verbatim>\<open>key=value\<close> pair in \<^verbatim>\<open>meta\<close>. \<^verbatim>\<open>pair.find('=')\<close> is \<open>None\<close> for
  \<^verbatim>\<open>npos\<close>; then \<^verbatim>\<open>substr(0, npos)\<close> and \<^verbatim>\<open>substr(npos + 1)\<close> are both the whole
  token.
\<close>

definition isspace :: "char \<Rightarrow> bool" where
  "isspace c = (c \<in> set [CHR '' '', CHR 0x09, CHR 0x0A, CHR 0x0B, CHR 0x0C, CHR 0x0D])"

fun extract_pairs :: "string \<Rightarrow> string \<Rightarrow> string list" where
  "extract_pairs pair [] = (if pair = [] then [] else [pair])"
| "extract_pairs pair (c # cs) =
     (if isspace c then (if pair = [] then extract_pairs [] cs else pair # extract_pairs [] cs)
      else extract_pairs (pair @ [c]) cs)"

definition str_find :: "string \<Rightarrow> char \<Rightarrow> nat option" where
  "str_find str c = (if c \<in> set str then Some (length (takeWhile (\<lambda>x. x \<noteq> c) str)) else None)"

definition set_pair :: "(string \<rightharpoonup> string) \<Rightarrow> string \<Rightarrow> (string \<rightharpoonup> string)" where
  "set_pair m pair =
     (let key = (case str_find pair CHR ''='' of None \<Rightarrow> pair | Some i \<Rightarrow> take i pair);
          val = (case str_find pair CHR ''='' of None \<Rightarrow> pair | Some i \<Rightarrow> drop (i + 1) pair)
      in m(key \<mapsto> val))"

definition agent :: "string \<Rightarrow> (string \<rightharpoonup> string)" where
  "agent args = foldl set_pair Map.empty (extract_pairs [] (''name=unknown role=unknown '' @ args))"

definition weight_agent ::
  "'f arith \<Rightarrow> 'f filesystem \<Rightarrow> string \<Rightarrow> failure + 'f weight_agent" where
  "weight_agent ar fsys args =
     (let s = \<lparr>meta = agent (''name=weight_agent role=environment '' @ args), net = [],
               alpha = f_of_int ar 0, reward_history = [], board_history = []\<rparr>;
          s = (case meta s ''init'' of None \<Rightarrow> s | Some info \<Rightarrow> init_weights ar info s)
      in case (case meta s ''load'' of None \<Rightarrow> Inr s | Some path \<Rightarrow> load_weights path fsys s) of
           Inl e \<Rightarrow> Inl e
         | Inr s \<Rightarrow>
             (case meta s ''alpha'' of
                None \<Rightarrow> Inr s
              | Some a \<Rightarrow>
                  (case f_stod ar a of
                     None \<Rightarrow> Inl Uncaught_exception
                   | Some x \<Rightarrow> Inr (s\<lparr>alpha := x\<rparr>))))"

section \<open>The specification's notions\<close>

text \<open>
  These definitions follow the words of the specification, not the code. The 8
  tuples are the 4 rows and the 4 columns of the 4 by 4 grid. The feature index of a
  tuple is the base-25 positional encoding of its cells' ranks, the first cell the most
  significant.
\<close>

definition tuples :: "nat list list" where
  "tuples = [[0, 1, 2, 3], [4, 5, 6, 7], [8, 9, 10, 11], [12, 13, 14, 15],
             [0, 4, 8, 12], [1, 5, 9, 13], [2, 6, 10, 14], [3, 7, 11, 15]]"

definition feature_index :: "board \<Rightarrow> nat list \<Rightarrow> nat" where
  "feature_index b cells =
     (\<Sum>i\<leftarrow>[0..<length cells]. b (cells ! i) * 25 ^ (length cells - 1 - i))"

definition lookup :: "'f weight list \<Rightarrow> nat \<Rightarrow> nat \<Rightarrow> 'f option" where
  "lookup nt k i = (if k < length nt \<and> i < length (nt ! k) then Some (nt ! k ! i) else None)"

text \<open>
  \<open>evaluate\<close>: the sum, over the 8 tuples, of the weight at the tuple's feature index,
  accumulated from 0 in tuple order; a function of the tables and the board alone.
\<close>

definition evaluate :: "'f arith \<Rightarrow> 'f weight list \<Rightarrow> board \<Rightarrow> 'f option" where
  "evaluate ar nt b =
     map_option (foldl (f_add ar) (f_of_int ar 0))
       (those (map (\<lambda>k. lookup nt k (feature_index b (tuples ! k))) [0..<8]))"

text \<open>
  \<open>add_all\<close>: the same \<open>d\<close> added to the entry of each of the first 8 tables at the index
  \<open>js ! k\<close>. \<open>adjust_toward\<close>: adjust a board toward a target, by the delta
  \<open>learning_rate * (target - evaluate board)\<close>.
\<close>

definition add_all :: "'f arith \<Rightarrow> 'f weight list \<Rightarrow> nat list \<Rightarrow> 'f \<Rightarrow> 'f weight list" where
  "add_all ar nt js d =
     map (\<lambda>k. if k < 8 then (nt ! k)[js ! k := f_add ar (nt ! k ! (js ! k)) d] else nt ! k)
       [0..<length nt]"

definition adjust_toward :: "'f arith \<Rightarrow> 'f \<Rightarrow> 'f weight list \<Rightarrow> board \<Rightarrow> 'f \<Rightarrow> 'f weight list option" where
  "adjust_toward ar rate nt b target =
     map_option
       (\<lambda>v. add_all ar nt (map (feature_index b) tuples) (f_mul ar rate (f_sub ar target v)))
       (evaluate ar nt b)"

text \<open>
  The backward pass over a trajectory of (afterstate, reward) pairs: index \<open>n - 1\<close>
  first, toward 0; then \<open>t\<close> from \<open>n - 2\<close> down to 0, toward the reward of \<open>t + 1\<close>
  plus the value of the afterstate \<open>t + 1\<close> in the tables as they are at that moment.
\<close>

definition td_step ::
  "'f arith \<Rightarrow> 'f \<Rightarrow> (board \<times> int) list \<Rightarrow> nat \<Rightarrow> 'f weight list option \<Rightarrow> 'f weight list option" where
  "td_step ar rate traj t cur = do {
     nt \<leftarrow> cur;
     v \<leftarrow> evaluate ar nt (fst (traj ! (t + 1)));
     adjust_toward ar rate nt (fst (traj ! t)) (f_add ar (f_of_int ar (snd (traj ! (t + 1)))) v)
   }"

definition td_pass ::
  "'f arith \<Rightarrow> 'f \<Rightarrow> (board \<times> int) list \<Rightarrow> 'f weight list \<Rightarrow> 'f weight list option" where
  "td_pass ar rate traj nt =
     fold (td_step ar rate traj) (rev [0..<length traj - 1])
       (adjust_toward ar rate nt (fst (traj ! (length traj - 1))) (f_of_int ar 0))"

text \<open>
  A direction is legal on a board when \<^verbatim>\<open>slide\<close> does not return the sentinel \<open>-1\<close>.
  Its score is the immediate reward plus the value of its afterstate, as the comparison
  in \<^verbatim>\<open>take_action\<close> computes it. \<open>sentinel\<close> is the score the comparison uses before
  any direction is chosen: \<^verbatim>\<open>max_reward + max_val\<close> with the initial \<open>-1\<close> and
  \<^verbatim>\<open>-FLT_MAX\<close>.
\<close>

definition legal :: "(board \<Rightarrow> int \<Rightarrow> board \<times> int) \<Rightarrow> board \<Rightarrow> int \<Rightarrow> bool" where
  "legal slide b op = (snd (slide b op) \<noteq> - 1)"

definition score ::
  "'f arith \<Rightarrow> (board \<Rightarrow> int \<Rightarrow> board \<times> int) \<Rightarrow> 'f weight_agent \<Rightarrow> board \<Rightarrow> int \<Rightarrow> 'f" where
  "score ar slide s b op =
     f_add ar (f_of_int ar (snd (slide b op))) (the (v_value ar s (fst (slide b op))))"

definition sentinel :: "'f arith \<Rightarrow> 'f" where
  "sentinel ar = f_add ar (f_of_int ar (- 1)) (f_lowest ar)"

text \<open>The invariant of the two histories: they have the same length.\<close>

definition aligned :: "'f weight_agent \<Rightarrow> bool" where
  "aligned s = (length (reward_history s) = length (board_history s))"

section \<open>Notions of the proofs\<close>

text \<open>
  \<open>try_move\<close> is one pass of the loop body of \<^verbatim>\<open>take_action\<close> on the locals, for a
  direction whose afterstate has a value. \<open>best_so_far\<close> is the loop invariant: after the
  directions \<open>ops\<close>, either nothing is chosen and no legal score among them exceeds the
  sentinel, or the locals hold the first legal direction of the greatest score.
\<close>

definition try_move ::
  "'f arith \<Rightarrow> (board \<Rightarrow> int \<Rightarrow> board \<times> int) \<Rightarrow> 'f weight_agent \<Rightarrow> board \<Rightarrow> 'f locals \<Rightarrow> int
     \<Rightarrow> 'f locals" where
  "try_move ar slide s b l op =
     (if legal slide b op \<and>
         f_gt ar (score ar slide s b op) (f_add ar (f_of_int ar (max_reward l)) (max_val l))
      then l\<lparr>best_move := op, max_reward := snd (slide b op),
             max_val := the (v_value ar s (fst (slide b op))), next_board := fst (slide b op)\<rparr>
      else l)"

definition best_so_far ::
  "'f arith \<Rightarrow> (board \<Rightarrow> int \<Rightarrow> board \<times> int) \<Rightarrow> 'f weight_agent \<Rightarrow> board \<Rightarrow> int list
     \<Rightarrow> 'f locals \<Rightarrow> bool" where
  "best_so_far ar slide s b ops l =
     (before l = b \<and>
      (if best_move l = - 1
       then max_reward l = - 1 \<and> max_val l = f_lowest ar \<and>
            (\<forall>op\<in>set ops. legal slide b op \<longrightarrow> \<not> f_gt ar (score ar slide s b op) (sentinel ar))
       else best_move l \<in> set ops \<and> legal slide b (best_move l) \<and>
            max_reward l = snd (slide b (best_move l)) \<and>
            max_val l = the (v_value ar s (fst (slide b (best_move l)))) \<and>
            next_board l = fst (slide b (best_move l)) \<and>
            f_gt ar (score ar slide s b (best_move l)) (sentinel ar) \<and>
            (\<forall>op\<in>set ops. legal slide b op \<longrightarrow>
               \<not> f_gt ar (score ar slide s b op) (score ar slide s b (best_move l))) \<and>
            (\<forall>op\<in>set ops. legal slide b op \<and> op < best_move l \<longrightarrow>
               f_gt ar (score ar slide s b (best_move l)) (score ar slide s b op))))"

section \<open>Sample inputs\<close>

text \<open>
  Concrete inputs on which the theorems below are evaluated. \<open>int_arith\<close> interprets the
  float operations by exact integer arithmetic, the constant by the integer
  \<open>-(2 ^ 128 - 2 ^ 104)\<close>, which is \<^verbatim>\<open>-FLT_MAX\<close>. \<open>sample_agent\<close> holds the 8 zero
  tables that \<^verbatim>\<open>init_weights\<close> builds, and the learning rate 1. \<open>played_agent\<close> has
  recorded two turns.
\<close>

definition int_arith :: "int arith" where
  "int_arith = \<lparr>f_add = (+), f_sub = (-), f_mul = (*), f_gt = (\<lambda>x y. y < x), f_eq = (=),
     f_of_int = (\<lambda>i. i), f_lowest = - (2 ^ 128 - 2 ^ 104),
     f_stod = (\<lambda>str. if str = ''1'' then Some 1 else None)\<rparr>"

definition sample_agent :: "int weight_agent" where
  "sample_agent = \<lparr>meta = Map.empty, net = replicate 8 (replicate (25 * 25 * 25 * 25) 0),
     alpha = 1, reward_history = [], board_history = []\<rparr>"

definition played_agent :: "int weight_agent" where
  "played_agent =
     sample_agent\<lparr>reward_history := [0, 3], board_history := [default_board, default_board]\<rparr>"

text \<open>
  \<open>idle_agent\<close> is \<open>played_agent\<close> with the learning rate 0. The tables of \<open>low_agent\<close>
  hold \<open>-(2 ^ 127)\<close> everywhere, \<open>trained_agent\<close> has one nonzero weight. \<open>full_board\<close>
  is a full board of alternating ranks 1 and 3. The three slides stand for
  \<^verbatim>\<open>board::slide\<close>: no direction legal; direction 1 alone legal, with reward 2;
  directions 0 and 2 legal, both with reward 4. \<open>no_files\<close> is an empty file system
  in which every path can be written.
\<close>

definition idle_agent :: "int weight_agent" where
  "idle_agent = played_agent\<lparr>alpha := 0\<rparr>"

definition low_agent :: "int weight_agent" where
  "low_agent = sample_agent\<lparr>net := replicate 8 (replicate (25 * 25 * 25 * 25) (- (2 ^ 127)))\<rparr>"


definition full_board :: board where
  "full_board = (\<lambda>i. if even (i div 4 + i mod 4) then 1 else 3)"

definition stuck_slide :: "board \<Rightarrow> int \<Rightarrow> board \<times> int" where
  "stuck_slide b op = (b, - 1)"

definition one_way_slide :: "board \<Rightarrow> int \<Rightarrow> board \<times> int" where
  "one_way_slide b op = (if op = 1 then (b(0 := 1), 2) else (b, - 1))"

definition two_way_slide :: "board \<Rightarrow> int \<Rightarrow> board \<times> int" where
  "two_way_slide b op =
     (if op = 0 then (b(0 := 1), 4) else if op = 2 then (b(1 := 1), 4) else (b, - 1))"

definition no_files :: "int filesystem" where
  "no_files = \<lparr>files = Map.empty, can_write = (\<lambda>path. True)\<rparr>"


section \<open>The value estimate\<close>

lemma feature_index_rows:
  "feature_index b [c0, c1, c2, c3] = b c0 * 25 * 25 * 25 + b c1 * 25 * 25 + b c2 * 25 + b c3"
  by (simp add: feature_index_def upt_conv_Cons)

lemma upt8: "[0..<8] = [0, 1, 2, 3, 4, 5, 6, 7]"
  by (simp add: upt_conv_Cons)

lemma length_tuples: "length tuples = 8"
  by (simp add: tuples_def)

lemma entry_lookup: "entry s k i = lookup (net s) k i"
  by (simp add: entry_def lookup_def)

lemma v_value_evaluate: "v_value ar s b = evaluate ar (net s) b"
  unfolding v_value_def evaluate_def upt8 tuples_def entry_lookup
  by (simp add: feature_index_rows Let_def split: Option.bind_split)

text \<open>
  Claim C3. For every board \<open>b\<close>, \<^verbatim>\<open>v_value(b)\<close> is the sum over the 8 tuples (the 4 rows and
  the 4 columns) of the weight-table entry at the tuple's feature index, the base-25
  positional encoding of the tuple's 4 ranks, most significant first. The result is a
  function of the tables \<open>net s\<close> and the board alone, and the call returns a value only:
  nothing is updated. Where an index is outside its table the C++ is undefined; both
  sides are \<open>None\<close> then.
\<close>

theorem v_value_is_tuple_sum: "v_value ar s b = evaluate ar (net s) b"
proof -
  have "entry s k i = lookup (net s) k i" for k i
    by (simp add: entry_def lookup_def)
  then show ?thesis
    unfolding v_value_def evaluate_def upt8 tuples_def
    by (simp add: feature_index_rows Let_def split: Option.bind_split)
qed

section \<open>The weight update\<close>

lemma v_value_in_range:
  assumes "v_value ar s b = Some cur" and "k < 8"
  shows "k < length (net s) \<and> feature_index b (tuples ! k) < length (net s ! k)"
proof -
  from assms(1) have "evaluate ar (net s) b = Some cur"
    by (simp add: v_value_evaluate)
  then obtain ws where
    ws: "those (map (\<lambda>k. lookup (net s) k (feature_index b (tuples ! k))) [0..<8]) = Some ws"
    by (auto simp: evaluate_def)
  have "\<forall>k<8. lookup (net s) k (feature_index b (tuples ! k)) \<noteq> None"
    using ws unfolding upt8 by (auto simp: less_Suc_eq eval_nat_numeral split: option.splits)
  with assms(2) show ?thesis
    by (auto simp: lookup_def split: if_splits)
qed

lemma add_entry_Some:
  "k < length (net s) \<Longrightarrow> i < length (net s ! k) \<Longrightarrow>
   add_entry ar s k i d =
     Some (s\<lparr>net := (net s)[k := (net s ! k)[i := f_add ar (net s ! k ! i) d]]\<rparr>)"
  by (simp add: add_entry_def)

lemma add_chain:
  assumes "8 \<le> length (net s)"
    and "i0 < length (net s ! 0)" "i1 < length (net s ! 1)" "i2 < length (net s ! 2)"
    and "i3 < length (net s ! 3)" "i4 < length (net s ! 4)" "i5 < length (net s ! 5)"
    and "i6 < length (net s ! 6)" "i7 < length (net s ! 7)"
  shows "do { s \<leftarrow> add_entry ar s 0 i0 d; s \<leftarrow> add_entry ar s 1 i1 d; s \<leftarrow> add_entry ar s 2 i2 d;
              s \<leftarrow> add_entry ar s 3 i3 d; s \<leftarrow> add_entry ar s 4 i4 d; s \<leftarrow> add_entry ar s 5 i5 d;
              s \<leftarrow> add_entry ar s 6 i6 d; s \<leftarrow> add_entry ar s 7 i7 d; Some s }
         = Some (s\<lparr>net := add_all ar (net s) [i0, i1, i2, i3, i4, i5, i6, i7] d\<rparr>)"
proof -
  have "add_all ar (net s) [i0, i1, i2, i3, i4, i5, i6, i7] d =
     (net s)[0 := (net s ! 0)[i0 := f_add ar (net s ! 0 ! i0) d],
             1 := (net s ! 1)[i1 := f_add ar (net s ! 1 ! i1) d],
             2 := (net s ! 2)[i2 := f_add ar (net s ! 2 ! i2) d],
             3 := (net s ! 3)[i3 := f_add ar (net s ! 3 ! i3) d],
             4 := (net s ! 4)[i4 := f_add ar (net s ! 4 ! i4) d],
             5 := (net s ! 5)[i5 := f_add ar (net s ! 5 ! i5) d],
             6 := (net s ! 6)[i6 := f_add ar (net s ! 6 ! i6) d],
             7 := (net s ! 7)[i7 := f_add ar (net s ! 7 ! i7) d]]"
    apply (rule nth_equalityI)
     apply (simp add: add_all_def)
    using assms(1)
    apply (simp add: add_all_def nth_list_update)
    apply (auto simp: less_Suc_eq eval_nat_numeral)
    done
  moreover from assms(1) have "net s \<noteq> []" by auto
  ultimately show ?thesis
    using assms by (simp add: add_entry_Some)
qed

lemma adjust_table_Some:
  assumes "v_value ar s b = Some cur"
  shows "adjust_table ar s b T =
    Some (s\<lparr>net := add_all ar (net s) (map (feature_index b) tuples)
                      (f_mul ar (alpha s) (f_sub ar T cur))\<rparr>)"
proof -
  have r: "\<And>k. k < 8 \<Longrightarrow> k < length (net s) \<and> feature_index b (tuples ! k) < length (net s ! k)"
    using v_value_in_range[OF assms] by blast
  have r0: "8 \<le> length (net s)"
    using r[of 7] by simp
  have i: "feature_index b [0,1,2,3] < length (net s ! 0)"
    "feature_index b [4,5,6,7] < length (net s ! 1)"
    "feature_index b [8,9,10,11] < length (net s ! 2)"
    "feature_index b [12,13,14,15] < length (net s ! 3)"
    "feature_index b [0,4,8,12] < length (net s ! 4)"
    "feature_index b [1,5,9,13] < length (net s ! 5)"
    "feature_index b [2,6,10,14] < length (net s ! 6)"
    "feature_index b [3,7,11,15] < length (net s ! 7)"
    using r[of 0] r[of 1] r[of 2] r[of 3] r[of 4] r[of 5] r[of 6] r[of 7]
    by (simp_all add: tuples_def)
  define d where "d = f_mul ar (alpha s) (f_sub ar T cur)"
  have "adjust_table ar s b T = do {
      s \<leftarrow> add_entry ar s 0 (feature_index b [0,1,2,3]) d;
      s \<leftarrow> add_entry ar s 1 (feature_index b [4,5,6,7]) d;
      s \<leftarrow> add_entry ar s 2 (feature_index b [8,9,10,11]) d;
      s \<leftarrow> add_entry ar s 3 (feature_index b [12,13,14,15]) d;
      s \<leftarrow> add_entry ar s 4 (feature_index b [0,4,8,12]) d;
      s \<leftarrow> add_entry ar s 5 (feature_index b [1,5,9,13]) d;
      s \<leftarrow> add_entry ar s 6 (feature_index b [2,6,10,14]) d;
      s \<leftarrow> add_entry ar s 7 (feature_index b [3,7,11,15]) d;
      Some s }"
    unfolding adjust_table_def assms feature_index_rows Let_def d_def by simp
  also have "\<dots> = Some (s\<lparr>net := add_all ar (net s) (map (feature_index b) tuples) d\<rparr>)"
    by (subst add_chain[OF r0 i]) (simp add: tuples_def)
  finally show ?thesis by (simp add: d_def)
qed

lemma adjust_table_None:
  "v_value ar s b = None \<Longrightarrow> adjust_table ar s b T = None"
  by (simp add: adjust_table_def)

lemma adjust_table_toward:
  "adjust_table ar s b T =
     map_option (\<lambda>nt. s\<lparr>net := nt\<rparr>) (adjust_toward ar (alpha s) (net s) b T)"
proof (cases "v_value ar s b")
  case None
  then show ?thesis
    by (simp add: adjust_table_None adjust_toward_def v_value_evaluate[symmetric])
next
  case (Some cur)
  then show ?thesis
    by (simp add: adjust_table_Some adjust_toward_def v_value_evaluate[symmetric])
qed

lemma adjust_table_fields:
  assumes "adjust_table ar s b T = Some s'"
  shows "s' = s\<lparr>net := net s'\<rparr>"
  using assms by (auto simp: adjust_table_toward)

lemma add_all_nth:
  "k < length nt \<Longrightarrow> i < length (nt ! k) \<Longrightarrow>
   add_all ar nt js d ! k ! i =
     (if k < 8 \<and> i = js ! k then f_add ar (nt ! k ! i) d else nt ! k ! i)"
  by (simp add: add_all_def nth_list_update)

lemma add_all_shape:
  "length (add_all ar nt js d) = length nt"
  "k < length nt \<Longrightarrow> length (add_all ar nt js d ! k) = length (nt ! k)"
  by (simp_all add: add_all_def)

text \<open>
  Claim C2. For every board \<open>b\<close> and target \<open>T\<close>, \<^verbatim>\<open>adjust_table\<close> computes the single
  delta \<open>alpha * (T - v_value b)\<close> from the whole-board error and adds that same delta to the
  entry of each of the 8 tables at \<open>b\<close>'s feature index for that tuple. Every other entry,
  the shape of the tables and the other fields of the agent are unchanged. The terminal
  update is the case \<open>T = f_of_int ar 0\<close>: each affected entry changes by
  \<open>alpha * (0 - v_value b)\<close>, with the value read before the update. The hypothesis says
  that the 8 indices are inside their tables (else the C++ is undefined).
\<close>

theorem adjust_table_uniform_delta:
  assumes "v_value ar s b = Some cur"
  shows "\<exists>s'. adjust_table ar s b T = Some s' \<and> s' = s\<lparr>net := net s'\<rparr> \<and>
           length (net s') = length (net s) \<and>
           (\<forall>k<length (net s).
              length (net s' ! k) = length (net s ! k) \<and>
              (\<forall>i<length (net s ! k).
                 net s' ! k ! i =
                   (if k < 8 \<and> i = feature_index b (tuples ! k)
                    then f_add ar (net s ! k ! i) (f_mul ar (alpha s) (f_sub ar T cur))
                    else net s ! k ! i)))"
proof -
  let ?d = "f_mul ar (alpha s) (f_sub ar T cur)"
  let ?nt = "add_all ar (net s) (map (feature_index b) tuples) ?d"
  have "adjust_table ar s b T = Some (s\<lparr>net := ?nt\<rparr>)"
    by (rule adjust_table_Some[OF assms])
  moreover have "length ?nt = length (net s)"
    by (rule add_all_shape)
  moreover have "\<forall>k<length (net s). length (?nt ! k) = length (net s ! k) \<and>
      (\<forall>i<length (net s ! k). ?nt ! k ! i =
         (if k < 8 \<and> i = feature_index b (tuples ! k) then f_add ar (net s ! k ! i) ?d
          else net s ! k ! i))"
    by (auto simp: add_all_shape add_all_nth length_tuples)
  ultimately show ?thesis by simp
qed

theorem adjust_table_uniform_delta_witness:
  "v_value int_arith sample_agent default_board = Some 0 \<and>
   (\<exists>s'. adjust_table int_arith sample_agent default_board 5 = Some s' \<and>
      net s' ! 0 ! 0 = 5 \<and> net s' ! 7 ! 0 = 5 \<and> net s' ! 0 ! 1 = 0)"
proof -
  have v: "v_value int_arith sample_agent default_board = Some 0"
    by (simp add: v_value_def entry_def sample_agent_def default_board_def int_arith_def)
  from adjust_table_uniform_delta[OF v, of 5] obtain s' where
    s': "adjust_table int_arith sample_agent default_board 5 = Some s'"
    and e: "\<forall>k<length (net sample_agent).
              (\<forall>i<length (net sample_agent ! k).
                 net s' ! k ! i =
                   (if k < 8 \<and> i = feature_index default_board (tuples ! k)
                    then f_add int_arith (net sample_agent ! k ! i)
                           (f_mul int_arith (alpha sample_agent) (f_sub int_arith 5 0))
                    else net sample_agent ! k ! i))"
    by blast
  have "net s' ! 0 ! 0 = 5" "net s' ! 7 ! 0 = 5" "net s' ! 0 ! 1 = 0"
    using e[rule_format, of 0 0] e[rule_format, of 7 0] e[rule_format, of 0 1]
    by (simp_all add: sample_agent_def int_arith_def tuples_def feature_index_def default_board_def)
  with v s' show ?thesis by simp
qed

section \<open>Closing an episode\<close>

lemma fold_td_step_None: "fold (td_step ar rate traj) ts None = None"
  by (induction ts) (simp_all add: td_step_def)

lemma close_episode_loop_fold:
  assumes "length (reward_history s) = length (board_history s)"
    and "k < length (board_history s)" and "k \<le> 2147483647"
  shows "close_episode_loop ar (int k - 1) s =
     map_option (\<lambda>nt. s\<lparr>net := nt\<rparr>)
       (fold (td_step ar (alpha s) (zip (board_history s) (reward_history s))) (rev [0..<k])
          (Some (net s)))"
  using assms
proof (induction k arbitrary: s)
  case 0
  then show ?case by (subst close_episode_loop.simps) simp
next
  case (Suc k)
  let ?traj = "zip (board_history s) (reward_history s)"
  let ?T = "\<lambda>v. f_add ar (f_of_int ar (reward_history s ! Suc k)) v"
  have n: "nat (int k + 1) = Suc k"
    by linarith
  have unfold: "close_episode_loop ar (int (Suc k) - 1) s = do {
        v \<leftarrow> v_value ar s (board_history s ! Suc k);
        s' \<leftarrow> adjust_table ar s (board_history s ! k) (?T v);
        close_episode_loop ar (int k - 1) s' }"
    using Suc.prems by (subst close_episode_loop.simps) (simp add: vec_at_def int_succ_def n)
  have step: "td_step ar (alpha s) ?traj k (Some (net s)) = do {
        v \<leftarrow> evaluate ar (net s) (board_history s ! Suc k);
        adjust_toward ar (alpha s) (net s) (board_history s ! k) (?T v) }"
    using Suc.prems by (simp add: td_step_def)
  show ?case
  proof (cases "v_value ar s (board_history s ! Suc k)")
    case None
    then show ?thesis
      unfolding unfold by (simp add: step v_value_evaluate[symmetric] fold_td_step_None)
  next
    case (Some v)
    show ?thesis
    proof (cases "adjust_table ar s (board_history s ! k) (?T v)")
      case None
      then have "adjust_toward ar (alpha s) (net s) (board_history s ! k) (?T v) = None"
        by (simp add: adjust_table_toward)
      with None Some show ?thesis
        unfolding unfold by (simp add: step v_value_evaluate[symmetric] fold_td_step_None)
    next
      case s': (Some s')
      then have t: "adjust_toward ar (alpha s) (net s) (board_history s ! k) (?T v) = Some (net s')"
        and eq: "s' = s\<lparr>net := net s'\<rparr>"
        by (auto simp: adjust_table_toward)
      have h: "board_history s' = board_history s" "reward_history s' = reward_history s"
        "alpha s' = alpha s"
        by (subst eq, simp)+
      have "close_episode_loop ar (int k - 1) s' =
          map_option (\<lambda>nt. s'\<lparr>net := nt\<rparr>)
            (fold (td_step ar (alpha s') (zip (board_history s') (reward_history s'))) (rev [0..<k])
               (Some (net s')))"
        using Suc.prems by (intro Suc.IH) (simp_all add: h)
      moreover have "\<And>nt. s'\<lparr>net := nt\<rparr> = s\<lparr>net := nt\<rparr>"
        by (subst eq) simp
      ultimately show ?thesis
        unfolding unfold using Some s' t
        by (simp add: step v_value_evaluate[symmetric] h)
    qed
  qed
qed

lemma size_minus_2_eq:
  assumes "1 \<le> n" "n \<le> 2 ^ 31"
  shows "size_minus_2 n = int (n - 1) - 1"
proof (cases "n = 1")
  case True
  then show ?thesis by (simp add: size_minus_2_def)
next
  case False
  with assms have "2 \<le> n" by simp
  with assms(2) show ?thesis by (simp add: size_minus_2_def Let_def)
qed

text \<open>
  Claim C1. For every non-empty recorded trajectory of \<open>n\<close> afterstates with a nonzero
  learning rate, \<^verbatim>\<open>close_episode\<close> is the backward pass \<open>td_pass\<close>: it first adjusts
  \<open>s[n-1]\<close> toward 0, then for \<open>t\<close> from \<open>n-2\<close> down to 0 adjusts \<open>s[t]\<close> toward
  \<open>r[t+1] + v_value(s[t+1])\<close>, the value read from the tables as the earlier steps of the
  pass left them. For a trajectory of length 1 only the terminal update is applied.
  The agent's two histories have the same length (the invariant of claim C9), and the
  length fits the \<^verbatim>\<open>int\<close> loop counter.
\<close>

theorem close_episode_backward_pass:
  assumes "board_history s \<noteq> []"
    and "\<not> f_eq ar (alpha s) (f_of_int ar 0)"
    and "length (reward_history s) = length (board_history s)"
    and "length (board_history s) \<le> 2 ^ 31"
  shows "close_episode ar flag s =
           map_option (\<lambda>nt. s\<lparr>net := nt\<rparr>)
             (td_pass ar (alpha s) (zip (board_history s) (reward_history s)) (net s)) \<and>
         (length (board_history s) = 1 \<longrightarrow>
            close_episode ar flag s = adjust_table ar s (board_history s ! 0) (f_of_int ar 0))"
proof -
  let ?n = "length (board_history s)"
  let ?traj = "zip (board_history s) (reward_history s)"
  let ?b = "board_history s ! (?n - 1)"
  have n: "1 \<le> ?n" using assms(1) by (cases "board_history s") simp_all
  have t: "size_minus_2 ?n = int (?n - 1) - 1"
    using n assms(4) by (rule size_minus_2_eq)
  have ce: "close_episode ar flag s = do {
      s' \<leftarrow> adjust_table ar s ?b (f_of_int ar 0);
      close_episode_loop ar (size_minus_2 (length (board_history s'))) s' }"
    using assms(1,2) n by (simp add: close_episode_def vec_at_def)
  have first: "fst (?traj ! (length ?traj - 1)) = ?b"
    using n assms(3) by simp
  have main: "close_episode ar flag s =
      map_option (\<lambda>nt. s\<lparr>net := nt\<rparr>) (td_pass ar (alpha s) ?traj (net s))"
  proof (cases "adjust_table ar s ?b (f_of_int ar 0)")
    case None
    then have "adjust_toward ar (alpha s) (net s) ?b (f_of_int ar 0) = None"
      by (simp add: adjust_table_toward)
    with None show ?thesis
      unfolding ce td_pass_def first by (simp add: fold_td_step_None)
  next
    case (Some s')
    then have a: "adjust_toward ar (alpha s) (net s) ?b (f_of_int ar 0) = Some (net s')"
      and eq: "s' = s\<lparr>net := net s'\<rparr>"
      by (auto simp: adjust_table_toward)
    have h: "board_history s' = board_history s" "reward_history s' = reward_history s"
      "alpha s' = alpha s"
      by (subst eq, simp)+
    have "close_episode_loop ar (int (?n - 1) - 1) s' =
        map_option (\<lambda>nt. s'\<lparr>net := nt\<rparr>)
          (fold (td_step ar (alpha s') (zip (board_history s') (reward_history s')))
             (rev [0..<?n - 1]) (Some (net s')))"
      using n assms(3,4) by (intro close_episode_loop_fold) (simp_all add: h)
    moreover have "\<And>nt. s'\<lparr>net := nt\<rparr> = s\<lparr>net := nt\<rparr>"
      by (subst eq) simp
    ultimately show ?thesis
      unfolding ce td_pass_def first using Some a assms(3) by (simp add: h t)
  qed
  have single: "close_episode ar flag s = adjust_table ar s (board_history s ! 0) (f_of_int ar 0)"
    if one: "?n = 1"
  proof (cases "adjust_table ar s (board_history s ! 0) (f_of_int ar 0)")
    case None
    then show ?thesis unfolding ce one by simp
  next
    case (Some s')
    then have eq: "s' = s\<lparr>net := net s'\<rparr>"
      by (rule adjust_table_fields)
    have h: "length (board_history s') = 1"
      by (subst eq) (simp add: one)
    show ?thesis unfolding ce one using Some
      by (simp add: h size_minus_2_def close_episode_loop.simps[of _ "- 1"])
  qed
  from main single show ?thesis by blast
qed

theorem close_episode_backward_pass_witness:
  "board_history played_agent \<noteq> [] \<and>
   \<not> f_eq int_arith (alpha played_agent) (f_of_int int_arith 0) \<and>
   length (reward_history played_agent) = length (board_history played_agent) \<and>
   length (board_history played_agent) \<le> 2 ^ 31 \<and>
   (\<exists>nt. td_pass int_arith (alpha played_agent)
            (zip (board_history played_agent) (reward_history played_agent)) (net played_agent)
          = Some nt \<and>
          close_episode int_arith [] played_agent = Some (played_agent\<lparr>net := nt\<rparr>) \<and>
          nt ! 0 ! 0 = 3 \<and> nt ! 7 ! 0 = 3 \<and> nt ! 7 ! 1 = 0)"
proof -
  have h: "board_history played_agent \<noteq> []"
    "\<not> f_eq int_arith (alpha played_agent) (f_of_int int_arith 0)"
    "length (reward_history played_agent) = length (board_history played_agent)"
    "length (board_history played_agent) \<le> 2 ^ 31"
    by (simp_all add: played_agent_def sample_agent_def int_arith_def)
  have "\<exists>s'. close_episode int_arith [] played_agent = Some s' \<and>
      net s' ! 0 ! 0 = 3 \<and> net s' ! 7 ! 0 = 3 \<and> net s' ! 7 ! 1 = 0"
    by (simp add: close_episode_def played_agent_def sample_agent_def vec_at_def adjust_table_def
        v_value_def entry_def add_entry_def size_minus_2_def int_succ_def default_board_def
        close_episode_loop.simps[of _ 0] close_episode_loop.simps[of _ "- 1"] int_arith_def)
  then obtain s' where s': "close_episode int_arith [] played_agent = Some s'"
    and e: "net s' ! 0 ! 0 = 3" "net s' ! 7 ! 0 = 3" "net s' ! 7 ! 1 = 0"
    by blast
  let ?pass = "td_pass int_arith (alpha played_agent)
       (zip (board_history played_agent) (reward_history played_agent)) (net played_agent)"
  have "close_episode int_arith [] played_agent =
      map_option (\<lambda>nt. played_agent\<lparr>net := nt\<rparr>) ?pass"
    using close_episode_backward_pass[OF h, of "[]"] by (rule conjunct1)
  with s' obtain nt where nt: "?pass = Some nt" and eq: "s' = played_agent\<lparr>net := nt\<rparr>"
    by (cases ?pass) auto
  have "net s' = nt"
    by (subst eq) simp
  with s' e h nt eq show ?thesis by auto
qed

text \<open>
  Claim C6. Closing an episode with an empty recorded trajectory, or with a learning rate
  that compares equal to zero, returns at once: the agent, and with it every weight-table
  entry, is what it was before the call.
\<close>

theorem close_episode_noop:
  assumes "board_history s = [] \<or> f_eq ar (alpha s) (f_of_int ar 0)"
  shows "close_episode ar flag s = Some s"
  using assms by (auto simp: close_episode_def)

theorem close_episode_noop_witness:
  "board_history sample_agent = [] \<and>
   close_episode int_arith [] sample_agent = Some sample_agent \<and>
   board_history idle_agent = [default_board, default_board] \<and>
   f_eq int_arith (alpha idle_agent) (f_of_int int_arith 0) \<and>
   close_episode int_arith [] idle_agent = Some idle_agent"
proof -
  have a: "board_history sample_agent = []"
    by (simp add: sample_agent_def)
  have b: "f_eq int_arith (alpha idle_agent) (f_of_int int_arith 0)"
    by (simp add: idle_agent_def int_arith_def)
  have c: "board_history idle_agent = [default_board, default_board]"
    by (simp add: idle_agent_def played_agent_def)
  from a have "close_episode int_arith [] sample_agent = Some sample_agent"
    by (intro close_episode_noop) simp
  moreover from b have "close_episode int_arith [] idle_agent = Some idle_agent"
    by (intro close_episode_noop) simp
  ultimately show ?thesis using a b c by simp
qed

lemma close_episode_loop_fields:
  "close_episode_loop ar t s = Some s' \<Longrightarrow> s' = s\<lparr>net := net s'\<rparr>"
proof (induction ar t s rule: close_episode_loop.induct)
  case (1 ar t s)
  show ?case
  proof (cases "t \<ge> 0")
    case False
    with "1.prems" show ?thesis by (simp add: close_episode_loop.simps)
  next
    case True
    with "1.prems" obtain b t1 r b1 v s1 where
      st: "vec_at (board_history s) (nat t) = Some b" "int_succ t = Some t1"
        "vec_at (reward_history s) (nat t1) = Some r" "vec_at (board_history s) (nat t1) = Some b1"
        "v_value ar s b1 = Some v" "adjust_table ar s b (f_add ar (f_of_int ar r) v) = Some s1"
      and rec: "close_episode_loop ar (t - 1) s1 = Some s'"
      by (subst (asm) close_episode_loop.simps) (auto split: Option.bind_splits)
    from "1.IH"[OF True st rec] have a: "s' = s1\<lparr>net := net s'\<rparr>" .
    from adjust_table_fields[OF st(6)] have b: "s1 = s\<lparr>net := net s1\<rparr>" .
    show ?thesis
      by (subst a, subst b) simp
  qed
qed

lemma close_episode_fields:
  assumes "close_episode ar flag s = Some s'"
  shows "s' = s\<lparr>net := net s'\<rparr>"
proof (cases "board_history s = [] \<or> f_eq ar (alpha s) (f_of_int ar 0)")
  case True
  with assms have "s' = s" by (auto simp: close_episode_def split: if_splits)
  then show ?thesis by simp
next
  case False
  with assms obtain b s1 where
    a: "adjust_table ar s b (f_of_int ar 0) = Some s1"
    and l: "close_episode_loop ar (size_minus_2 (length (board_history s1))) s1 = Some s'"
    by (auto simp: close_episode_def split: Option.bind_splits)
  from close_episode_loop_fields[OF l] have x: "s' = s1\<lparr>net := net s'\<rparr>" .
  from adjust_table_fields[OF a] have y: "s1 = s\<lparr>net := net s1\<rparr>" .
  show ?thesis by (subst x, subst y) simp
qed

section \<open>The policy\<close>


lemma take_action_result:
  assumes "take_action ar slide s b = Some (a, s', b')"
  shows "\<exists>l. take_action_loop ar slide s 0
            \<lparr>before = b, best_move = - 1, max_reward = - 1, max_val = f_lowest ar,
              next_board = default_board\<rparr> = Some l \<and>
          a = action_slide (best_move l) \<and> b' = before l \<and>
          s' = (if best_move l \<noteq> - 1
                then s\<lparr>reward_history := reward_history s @ [max_reward l],
                       board_history := board_history s @ [next_board l]\<rparr>
                else s)"
  using assms by (auto simp: take_action_def Let_def split: Option.bind_splits)

lemma take_action_loop_step:
  assumes "op < 4" and "before l = b"
    and "legal slide b op \<longrightarrow> v_value ar s (fst (slide b op)) \<noteq> None"
  shows "take_action_loop ar slide s op l =
         take_action_loop ar slide s (op + 1) (try_move ar slide s b l op)"
  using assms
  by (subst take_action_loop.simps) (auto simp: try_move_def legal_def score_def Let_def)

lemma take_action_loop_unroll:
  assumes "before l = b"
    and "\<forall>op\<in>set [0, 1, 2, 3]. legal slide b op \<longrightarrow> v_value ar s (fst (slide b op)) \<noteq> None"
  shows "take_action_loop ar slide s 0 l = Some (foldl (try_move ar slide s b) l [0, 1, 2, 3])"
proof -
  have bf: "\<And>l op. before (try_move ar slide s b l op) = before l"
    by (simp add: try_move_def)
  have "take_action_loop ar slide s 0 l = take_action_loop ar slide s 1 (try_move ar slide s b l 0)"
    using take_action_loop_step[of 0 l b slide ar s] assms by simp
  also have "\<dots> = take_action_loop ar slide s 2 (try_move ar slide s b (try_move ar slide s b l 0) 1)"
    using take_action_loop_step[of 1 "try_move ar slide s b l 0" b slide ar s] assms by (simp add: bf)
  also have "\<dots> = take_action_loop ar slide s 3
      (try_move ar slide s b (try_move ar slide s b (try_move ar slide s b l 0) 1) 2)"
    using take_action_loop_step[of 2 "try_move ar slide s b (try_move ar slide s b l 0) 1" b slide ar s]
      assms by (simp add: bf)
  also have "\<dots> = take_action_loop ar slide s 4
      (try_move ar slide s b (try_move ar slide s b (try_move ar slide s b (try_move ar slide s b l 0) 1) 2) 3)"
    using take_action_loop_step[of 3
        "try_move ar slide s b (try_move ar slide s b (try_move ar slide s b l 0) 1) 2" b slide ar s]
      assms by (simp add: bf)
  also have "\<dots> = Some (foldl (try_move ar slide s b) l [0, 1, 2, 3])"
    by (subst take_action_loop.simps) simp
  finally show ?thesis .
qed

lemma best_so_far_step:
  fixes key :: "'f \<Rightarrow> 'k::linorder"
  assumes inv: "best_so_far ar slide s b ops l"
    and new: "\<forall>x\<in>set ops. x < op" and nonneg: "0 \<le> op"
    and ord: "\<forall>x\<in>S. \<forall>y\<in>S. f_gt ar x y = (key y < key x)"
    and sent: "sentinel ar \<in> S"
    and mem: "\<forall>p\<in>set (ops @ [op]). legal slide b p \<longrightarrow> score ar slide s b p \<in> S"
  shows "best_so_far ar slide s b (ops @ [op]) (try_move ar slide s b l op)"
proof (cases "legal slide b op")
  case False
  with inv new show ?thesis
    by (auto simp: best_so_far_def try_move_def)
next
  case True
  then have sop: "score ar slide s b op \<in> S" using mem by simp
  have gt: "\<And>x y. x \<in> S \<Longrightarrow> y \<in> S \<Longrightarrow> f_gt ar x y = (key y < key x)"
    using ord by blast
  show ?thesis
  proof (cases "best_move l = - 1")
    case none: True
    with inv have cur: "f_add ar (f_of_int ar (max_reward l)) (max_val l) = sentinel ar"
      and old: "\<forall>p\<in>set ops. legal slide b p \<longrightarrow> \<not> f_gt ar (score ar slide s b p) (sentinel ar)"
      and bf: "before l = b" and fields: "max_reward l = - 1" "max_val l = f_lowest ar"
      by (simp_all add: best_so_far_def sentinel_def)
    show ?thesis
    proof (cases "f_gt ar (score ar slide s b op) (sentinel ar)")
      case False
      then have "try_move ar slide s b l op = l"
        by (simp add: try_move_def cur)
      with False True none old bf fields show ?thesis
        by (simp add: best_so_far_def)
    next
      case win: True
      have a: "\<forall>p\<in>set (ops @ [op]). legal slide b p \<longrightarrow>
          \<not> f_gt ar (score ar slide s b p) (score ar slide s b op)"
      proof (intro ballI impI)
        fix p assume p: "p \<in> set (ops @ [op])" and lp: "legal slide b p"
        then have sp: "score ar slide s b p \<in> S" using mem by blast
        show "\<not> f_gt ar (score ar slide s b p) (score ar slide s b op)"
        proof (cases "p = op")
          case True
          then show ?thesis using gt[OF sop sop] by simp
        next
          case False
          with p have "p \<in> set ops" by simp
          with old lp have "\<not> f_gt ar (score ar slide s b p) (sentinel ar)" by blast
          with win show ?thesis
            using gt[OF sp sent] gt[OF sop sent] gt[OF sp sop] by auto
        qed
      qed
      have t: "\<forall>p\<in>set (ops @ [op]). legal slide b p \<and> p < op \<longrightarrow>
          f_gt ar (score ar slide s b op) (score ar slide s b p)"
      proof (intro ballI impI)
        fix p assume p: "p \<in> set (ops @ [op])" and lp: "legal slide b p \<and> p < op"
        then have sp: "score ar slide s b p \<in> S" using mem by blast
        from p lp have "p \<in> set ops" by auto
        with old lp have "\<not> f_gt ar (score ar slide s b p) (sentinel ar)" by blast
        with win show "f_gt ar (score ar slide s b op) (score ar slide s b p)"
          using gt[OF sp sent] gt[OF sop sent] gt[OF sop sp] by auto
      qed
      from True win nonneg bf a t show ?thesis
        by (simp add: best_so_far_def try_move_def cur)
    qed
  next
    case some: False
    define p0 where "p0 = best_move l"
    from inv some have bf: "before l = b" and p0: "p0 \<in> set ops" "legal slide b p0"
      and cur: "f_add ar (f_of_int ar (max_reward l)) (max_val l) = score ar slide s b p0"
      and above: "f_gt ar (score ar slide s b p0) (sentinel ar)"
      and old: "\<forall>p\<in>set ops. legal slide b p \<longrightarrow>
           \<not> f_gt ar (score ar slide s b p) (score ar slide s b p0)"
      and tie: "\<forall>p\<in>set ops. legal slide b p \<and> p < p0 \<longrightarrow>
           f_gt ar (score ar slide s b p0) (score ar slide s b p)"
      and fields: "max_reward l = snd (slide b p0)"
        "max_val l = the (v_value ar s (fst (slide b p0)))" "next_board l = fst (slide b p0)"
      by (simp_all add: best_so_far_def p0_def score_def)
    have sp0: "score ar slide s b p0 \<in> S" using mem p0 by simp
    show ?thesis
    proof (cases "f_gt ar (score ar slide s b op) (score ar slide s b p0)")
      case False
      then have same: "try_move ar slide s b l op = l"
        by (simp add: try_move_def cur)
      have "p0 < op" using new p0 by blast
      with False inv some show ?thesis
        unfolding same by (auto simp: best_so_far_def p0_def[symmetric])
    next
      case win: True
      have a: "\<forall>p\<in>set (ops @ [op]). legal slide b p \<longrightarrow>
          \<not> f_gt ar (score ar slide s b p) (score ar slide s b op)"
      proof (intro ballI impI)
        fix p assume p: "p \<in> set (ops @ [op])" and lp: "legal slide b p"
        then have sp: "score ar slide s b p \<in> S" using mem by blast
        show "\<not> f_gt ar (score ar slide s b p) (score ar slide s b op)"
        proof (cases "p = op")
          case True
          then show ?thesis using gt[OF sop sop] by simp
        next
          case False
          with p have "p \<in> set ops" by simp
          with old lp have "\<not> f_gt ar (score ar slide s b p) (score ar slide s b p0)" by blast
          with win show ?thesis
            using gt[OF sp sp0] gt[OF sop sp0] gt[OF sp sop] by auto
        qed
      qed
      have t: "\<forall>p\<in>set (ops @ [op]). legal slide b p \<and> p < op \<longrightarrow>
          f_gt ar (score ar slide s b op) (score ar slide s b p)"
      proof (intro ballI impI)
        fix p assume p: "p \<in> set (ops @ [op])" and lp: "legal slide b p \<and> p < op"
        then have sp: "score ar slide s b p \<in> S" using mem by blast
        from p lp have "p \<in> set ops" by auto
        with old lp have "\<not> f_gt ar (score ar slide s b p) (score ar slide s b p0)" by blast
        with win show "f_gt ar (score ar slide s b op) (score ar slide s b p)"
          using gt[OF sp sp0] gt[OF sop sp0] gt[OF sop sp] by auto
      qed
      have "f_gt ar (score ar slide s b op) (sentinel ar)"
        using win above gt[OF sop sp0] gt[OF sp0 sent] gt[OF sop sent] by auto
      with True win nonneg bf a t show ?thesis
        by (simp add: best_so_far_def try_move_def cur)
    qed
  qed
qed

lemma take_action_best:
  fixes key :: "'f \<Rightarrow> 'k::linorder"
  assumes defd: "\<forall>op\<in>set [0, 1, 2, 3]. legal slide b op \<longrightarrow> v_value ar s (fst (slide b op)) \<noteq> None"
    and ord: "\<forall>x\<in>S. \<forall>y\<in>S. f_gt ar x y = (key y < key x)"
    and sent: "sentinel ar \<in> S"
    and mem: "\<forall>p\<in>set [0, 1, 2, 3]. legal slide b p \<longrightarrow> score ar slide s b p \<in> S"
    and l0: "l0 = \<lparr>before = b, best_move = - 1, max_reward = - 1, max_val = f_lowest ar,
              next_board = default_board\<rparr>"
  shows "\<exists>l. take_action_loop ar slide s 0 l0 = Some l \<and> best_so_far ar slide s b [0, 1, 2, 3] l"
proof -
  have i0: "best_so_far ar slide s b [] l0"
    by (simp add: best_so_far_def l0)
  have i1: "best_so_far ar slide s b ([] @ [0]) (try_move ar slide s b l0 0)"
    using i0 ord sent mem by (intro best_so_far_step[where key = key and S = S]) simp_all
  have i2: "best_so_far ar slide s b ([0] @ [1]) (try_move ar slide s b (try_move ar slide s b l0 0) 1)"
    using i1 ord sent mem by (intro best_so_far_step[where key = key and S = S]) simp_all
  have i3: "best_so_far ar slide s b ([0, 1] @ [2])
      (try_move ar slide s b (try_move ar slide s b (try_move ar slide s b l0 0) 1) 2)"
    using i2 ord sent mem by (intro best_so_far_step[where key = key and S = S]) simp_all
  have i4: "best_so_far ar slide s b ([0, 1, 2] @ [3])
      (try_move ar slide s b
        (try_move ar slide s b (try_move ar slide s b (try_move ar slide s b l0 0) 1) 2) 3)"
    using i3 ord sent mem by (intro best_so_far_step[where key = key and S = S]) simp_all
  have "before l0 = b" by (simp add: l0)
  from take_action_loop_unroll[OF this defd] i4 show ?thesis
    by simp
qed

text \<open>
  What the loop of \<^verbatim>\<open>take_action\<close> computes. It tries the directions 0, 1, 2, 3 in this
  order, skips a direction whose slide returns \<open>-1\<close>, and scores a legal direction as
  its reward plus the value of its afterstate. Where the comparison \<^verbatim>\<open>>\<close> orders the
  legal scores and the sentinel \<open>-1 + -FLT_MAX\<close> as a linear order does (no NaN among
  them), the result is one of two. Either some legal score exceeds the sentinel: then
  the direction returned has a score that no legal score exceeds, every earlier legal
  direction has a strictly smaller score, and its reward and afterstate are appended to
  the histories. Or no legal score exceeds the sentinel: then the loop accepts no
  direction. The first hypothesis says that the afterstates' feature indices are inside
  the tables.
\<close>

theorem take_action_greedy:
  fixes key :: "'f \<Rightarrow> 'k::linorder"
  assumes defd: "\<forall>op\<in>set [0, 1, 2, 3]. legal slide b op \<longrightarrow> v_value ar s (fst (slide b op)) \<noteq> None"
    and ord: "\<forall>x\<in>insert (sentinel ar) (score ar slide s b ` {op \<in> set [0, 1, 2, 3]. legal slide b op}).
              \<forall>y\<in>insert (sentinel ar) (score ar slide s b ` {op \<in> set [0, 1, 2, 3]. legal slide b op}).
                f_gt ar x y = (key y < key x)"
  shows "(\<exists>op\<in>set [0, 1, 2, 3].
            legal slide b op \<and> f_gt ar (score ar slide s b op) (sentinel ar) \<and>
            take_action ar slide s b =
              Some (action_slide op,
                    s\<lparr>reward_history := reward_history s @ [snd (slide b op)],
                      board_history := board_history s @ [fst (slide b op)]\<rparr>, b) \<and>
            (\<forall>op'\<in>set [0, 1, 2, 3]. legal slide b op' \<longrightarrow>
               \<not> f_gt ar (score ar slide s b op') (score ar slide s b op)) \<and>
            (\<forall>op'\<in>set [0, 1, 2, 3]. legal slide b op' \<and> op' < op \<longrightarrow>
               f_gt ar (score ar slide s b op) (score ar slide s b op'))) \<or>
         ((\<forall>op\<in>set [0, 1, 2, 3]. legal slide b op \<longrightarrow>
             \<not> f_gt ar (score ar slide s b op) (sentinel ar)) \<and>
          take_action ar slide s b = Some (action_slide (- 1), s, b))"
proof -
  let ?S = "insert (sentinel ar) (score ar slide s b ` {op \<in> set [0, 1, 2, 3]. legal slide b op})"
  define l0 where "l0 = \<lparr>before = b, best_move = - 1, max_reward = - 1, max_val = f_lowest ar,
              next_board = default_board\<rparr>"
  have "sentinel ar \<in> ?S" by simp
  moreover have "\<forall>p\<in>set [0, 1, 2, 3]. legal slide b p \<longrightarrow> score ar slide s b p \<in> ?S"
    by blast
  ultimately obtain l where run: "take_action_loop ar slide s 0 l0 = Some l"
    and best: "best_so_far ar slide s b [0, 1, 2, 3] l"
    using take_action_best[OF defd ord _ _ l0_def] by blast
  have ta: "take_action ar slide s b =
      Some (action_slide (best_move l),
            (if best_move l \<noteq> - 1
             then s\<lparr>reward_history := reward_history s @ [max_reward l],
                    board_history := board_history s @ [next_board l]\<rparr>
             else s), before l)"
    using run by (simp add: take_action_def l0_def Let_def)
  show ?thesis
  proof (cases "best_move l = - 1")
    case True
    with best ta show ?thesis
      by (simp add: best_so_far_def)
  next
    case False
    with best have "best_move l \<in> set [0, 1, 2, 3]" and "legal slide b (best_move l)"
      and "f_gt ar (score ar slide s b (best_move l)) (sentinel ar)"
      and "max_reward l = snd (slide b (best_move l))"
      and "next_board l = fst (slide b (best_move l))" and "before l = b"
      and "\<forall>op'\<in>set [0, 1, 2, 3]. legal slide b op' \<longrightarrow>
               \<not> f_gt ar (score ar slide s b op') (score ar slide s b (best_move l))"
      and "\<forall>op'\<in>set [0, 1, 2, 3]. legal slide b op' \<and> op' < best_move l \<longrightarrow>
               f_gt ar (score ar slide s b (best_move l)) (score ar slide s b op')"
      by (simp_all add: best_so_far_def)
    with False ta show ?thesis
      by (intro disjI1 bexI[of _ "best_move l"]) simp_all
  qed
qed

theorem take_action_greedy_witness:
  "legal two_way_slide default_board 0 \<and> legal two_way_slide default_board 2 \<and>
   score int_arith two_way_slide sample_agent default_board 0 = 4 \<and>
   score int_arith two_way_slide sample_agent default_board 2 = 4 \<and>
   take_action int_arith two_way_slide sample_agent default_board =
     Some (action_slide 0,
           sample_agent\<lparr>reward_history := [4], board_history := [default_board(0 := 1)]\<rparr>,
           default_board)"
proof -
  have v: "v_value int_arith sample_agent (default_board(0 := Suc 0)) = Some 0"
    "v_value int_arith sample_agent (default_board(Suc 0 := Suc 0)) = Some 0"
    by (simp_all add: v_value_def entry_def sample_agent_def default_board_def int_arith_def)
  have l: "legal two_way_slide default_board 0" "\<not> legal two_way_slide default_board 1"
    "legal two_way_slide default_board 2" "\<not> legal two_way_slide default_board 3"
    by (simp_all add: legal_def two_way_slide_def)
  have sc: "score int_arith two_way_slide sample_agent default_board 0 = 4"
    "score int_arith two_way_slide sample_agent default_board 2 = 4"
    by (simp_all add: score_def two_way_slide_def v_value_def entry_def sample_agent_def
        default_board_def int_arith_def)
  have se: "sentinel int_arith = - 340282346638528859811704183484516925441"
    by (simp add: sentinel_def int_arith_def)
  have gt: "\<And>x y. f_gt int_arith x y = (id y < id x)"
    by (simp add: int_arith_def)
  have "take_action int_arith two_way_slide sample_agent default_board =
     Some (action_slide 0,
           sample_agent\<lparr>reward_history := reward_history sample_agent @ [snd (two_way_slide default_board 0)],
             board_history := board_history sample_agent @ [fst (two_way_slide default_board 0)]\<rparr>,
           default_board)"
    using take_action_greedy[of two_way_slide default_board int_arith sample_agent id]
    by (simp add: l sc se gt) (simp add: two_way_slide_def v)
  then show ?thesis
    using l sc by (simp add: two_way_slide_def sample_agent_def)
qed

text \<open>
  Claim C4. On a board with a legal move \<^verbatim>\<open>take_action\<close> is to return the legal
  direction of the greatest score, and a single legal direction whatever the value of
  its afterstate. The code misses the scores that do not exceed its starting value
  \<open>-1 + -FLT_MAX\<close>. Evaluated where direction 1 is the only legal one and has the
  reward 2, and every weight is \<open>-(2 ^ 127)\<close>: the value of the afterstate is
  \<open>-(2 ^ 130)\<close> (in IEEE floats the sum overflows to minus infinity), the comparison
  fails, \<open>best_move\<close> stays \<open>-1\<close> and nothing is recorded.
\<close>

theorem take_action_skips_legal_move:
  "legal one_way_slide default_board 1 \<and> snd (one_way_slide default_board 1) = 2 \<and>
   \<not> legal one_way_slide default_board 0 \<and> \<not> legal one_way_slide default_board 2 \<and>
   \<not> legal one_way_slide default_board 3 \<and>
   v_value int_arith low_agent (fst (one_way_slide default_board 1)) = Some (- (2 ^ 130)) \<and>
   take_action int_arith one_way_slide low_agent default_board =
     Some (action_slide (- 1), low_agent, default_board)"
  by (simp add: legal_def one_way_slide_def take_action_def Let_def
      take_action_loop.simps[of _ _ _ 0] take_action_loop.simps[of _ _ _ 1]
      take_action_loop.simps[of _ _ _ 2] take_action_loop.simps[of _ _ _ 3]
      take_action_loop.simps[of _ _ _ 4]
      v_value_def entry_def low_agent_def sample_agent_def default_board_def int_arith_def)

lemma take_action_no_legal:
  assumes "\<forall>op\<in>set [0, 1, 2, 3]. snd (slide b op) = - 1"
  shows "take_action ar slide s b = Some (action_slide (- 1), s, b)"
  using assms
  by (simp add: take_action_def Let_def
      take_action_loop.simps[of _ _ _ 0] take_action_loop.simps[of _ _ _ 1]
      take_action_loop.simps[of _ _ _ 2] take_action_loop.simps[of _ _ _ 3]
      take_action_loop.simps[of _ _ _ 4])

text \<open>
  Claim C5. On a board on which all 4 directions are illegal, \<^verbatim>\<open>take_action\<close> leaves the
  agent as it was, so neither history grows; the action it returns is
  \<^verbatim>\<open>action::slide(best_move)\<close> with \<open>best_move = -1\<close>, which is not the null action
  \<^verbatim>\<open>action()\<close>. Evaluated on the full board \<open>full_board\<close>.
\<close>

theorem take_action_stuck_board:
  "take_action int_arith stuck_slide sample_agent full_board =
     Some (action_slide (- 1), sample_agent, full_board) \<and>
   action_slide (- 1) \<noteq> action_none"
proof -
  have "take_action_loop int_arith stuck_slide sample_agent 0
      \<lparr>before = full_board, best_move = - 1, max_reward = - 1, max_val = f_lowest int_arith,
         next_board = default_board\<rparr> =
    Some \<lparr>before = full_board, best_move = - 1, max_reward = - 1, max_val = f_lowest int_arith,
         next_board = default_board\<rparr>"
    by (simp add: stuck_slide_def Let_def
        take_action_loop.simps[of _ _ _ 0] take_action_loop.simps[of _ _ _ 1]
        take_action_loop.simps[of _ _ _ 2] take_action_loop.simps[of _ _ _ 3]
        take_action_loop.simps[of _ _ _ 4])
  then show ?thesis
    by (simp add: take_action_def)
qed



section \<open>The two histories\<close>

lemma replicate8: "replicate 8 x = [x, x, x, x, x, x, x, x]"
  by (simp add: eval_nat_numeral)

lemma init_weights_eq:
  "init_weights ar info s = s\<lparr>net := net s @ replicate 8 (replicate (25 ^ 4) (f_of_int ar 0))\<rparr>"
  unfolding replicate8 by (simp add: init_weights_def emplace_back_def)

lemma load_weights_fields:
  "load_weights path fsys s = Inr s' \<Longrightarrow> s' = s\<lparr>net := net s'\<rparr>"
  by (auto simp: load_weights_def Let_def split: option.splits)

lemma weight_agent_histories:
  assumes "weight_agent ar fsys args = Inr s0"
  shows "reward_history s0 = [] \<and> board_history s0 = []"
proof -
  define s1 :: "'a weight_agent" where "s1 = \<lparr>meta = agent (''name=weight_agent role=environment '' @ args), net = [],
               alpha = f_of_int ar 0, reward_history = [], board_history = []\<rparr>"
  define s2 where "s2 = (case meta s1 ''init'' of None \<Rightarrow> s1 | Some info \<Rightarrow> init_weights ar info s1)"
  have h2: "reward_history s2 = [] \<and> board_history s2 = []"
    by (simp add: s2_def s1_def init_weights_eq split: option.splits)
  from assms obtain s3 where
    s3: "(case meta s2 ''load'' of None \<Rightarrow> Inr s2 | Some path \<Rightarrow> load_weights path fsys s2) = Inr s3"
    and s0: "(case meta s3 ''alpha'' of
                None \<Rightarrow> Inr s3
              | Some a \<Rightarrow>
                  (case f_stod ar a of
                     None \<Rightarrow> Inl Uncaught_exception
                   | Some x \<Rightarrow> Inr (s3\<lparr>alpha := x\<rparr>))) = Inr s0"
    unfolding weight_agent_def s1_def[symmetric] Let_def s2_def[symmetric]
    by (auto split: sum.splits)
  from s3 have "s3 = s2\<lparr>net := net s3\<rparr>"
    by (auto split: option.splits dest: load_weights_fields)
  then have h3: "reward_history s3 = reward_history s2 \<and> board_history s3 = board_history s2"
    by (metis weight_agent.select_convs(4,5) weight_agent.surjective weight_agent.update_convs(2))
  from s0 have "reward_history s0 = reward_history s3 \<and> board_history s0 = board_history s3"
    by (auto split: option.splits)
  with h2 h3 show ?thesis by simp
qed

text \<open>
  Claim C9. The invariant \<^verbatim>\<open>reward_history.size() == board_history.size()\<close> holds after
  the construction of the agent, where both histories are empty, and every operation
  preserves it: \<^verbatim>\<open>open_episode\<close> clears both, \<^verbatim>\<open>take_action\<close> appends one element to
  each or appends to neither, and \<^verbatim>\<open>close_episode\<close> appends to neither.
\<close>

theorem histories_aligned:
  fixes ar :: "'f arith"
  shows
  "(weight_agent ar fsys args = Inr s0 \<longrightarrow> reward_history s0 = [] \<and> board_history s0 = [] \<and> aligned s0) \<and>
   reward_history (open_episode flag s) = [] \<and> board_history (open_episode flag s) = [] \<and>
   aligned (open_episode flag s) \<and>
   (take_action ar slide s b = Some (a, s1, b1) \<longrightarrow>
      ((reward_history s1 = reward_history s \<and> board_history s1 = board_history s) \<or>
       (\<exists>r nb. reward_history s1 = reward_history s @ [r] \<and>
                board_history s1 = board_history s @ [nb])) \<and>
      (aligned s \<longrightarrow> aligned s1)) \<and>
   (close_episode ar flag s = Some s2 \<longrightarrow>
      reward_history s2 = reward_history s \<and> board_history s2 = board_history s \<and>
      (aligned s \<longrightarrow> aligned s2))"
proof -
  have c: "reward_history s0 = [] \<and> board_history s0 = [] \<and> aligned s0"
    if "weight_agent ar fsys args = Inr s0"
    using weight_agent_histories[OF that] by (simp add: aligned_def)
  have o: "reward_history (open_episode flag s) = [] \<and> board_history (open_episode flag s) = [] \<and>
      aligned (open_episode flag s)"
    by (simp add: open_episode_def aligned_def)
  have t: "((reward_history s1 = reward_history s \<and> board_history s1 = board_history s) \<or>
       (\<exists>r nb. reward_history s1 = reward_history s @ [r] \<and>
                board_history s1 = board_history s @ [nb])) \<and>
      (aligned s \<longrightarrow> aligned s1)"
    if "take_action ar slide s b = Some (a, s1, b1)"
  proof -
    from take_action_result[OF that] obtain l :: "'f locals" where
      s1: "s1 = (if best_move l \<noteq> - 1
                then s\<lparr>reward_history := reward_history s @ [max_reward l],
                       board_history := board_history s @ [next_board l]\<rparr>
                else s)"
      by blast
    show ?thesis
    proof (cases "best_move l = - 1")
      case True
      with s1 show ?thesis by simp
    next
      case False
      with s1 have "reward_history s1 = reward_history s @ [max_reward l]"
        and "board_history s1 = board_history s @ [next_board l]"
        by simp_all
      then show ?thesis by (simp add: aligned_def)
    qed
  qed
  have e: "reward_history s2 = reward_history s \<and> board_history s2 = board_history s \<and>
      (aligned s \<longrightarrow> aligned s2)"
    if "close_episode ar flag s = Some s2"
  proof -
    from close_episode_fields[OF that] have "s2 = s\<lparr>net := net s2\<rparr>" .
    then have "reward_history s2 = reward_history s \<and> board_history s2 = board_history s"
      by (metis weight_agent.select_convs(4,5) weight_agent.surjective weight_agent.update_convs(2))
    then show ?thesis by (simp add: aligned_def)
  qed
  from c o t e show ?thesis by blast
qed

theorem histories_aligned_witness:
  "(\<exists>s0. weight_agent int_arith no_files ''init=1 alpha=1'' = Inr s0 \<and> aligned s0 \<and>
      reward_history s0 = [] \<and> alpha s0 = 1 \<and> length (net s0) = 8) \<and>
   aligned sample_agent \<and>
   (\<exists>a s1 b1. take_action int_arith one_way_slide sample_agent full_board = Some (a, s1, b1) \<and>
      reward_history s1 = [2] \<and> aligned s1)"
proof -
  have "\<exists>s0. weight_agent int_arith no_files ''init=1 alpha=1'' = Inr s0 \<and> alpha s0 = 1 \<and>
      length (net s0) = 8"
    by (simp add: weight_agent_def agent_def set_pair_def str_find_def isspace_def
        init_weights_eq int_arith_def)
  then obtain s0 where c: "weight_agent int_arith no_files ''init=1 alpha=1'' = Inr s0"
    and c': "alpha s0 = 1" "length (net s0) = 8"
    by blast
  have "\<exists>a s1 b1. take_action int_arith one_way_slide sample_agent full_board = Some (a, s1, b1) \<and>
      reward_history s1 = [2]"
    by (simp add: one_way_slide_def take_action_def Let_def
        take_action_loop.simps[of _ _ _ 0] take_action_loop.simps[of _ _ _ 1]
        take_action_loop.simps[of _ _ _ 2] take_action_loop.simps[of _ _ _ 3]
        take_action_loop.simps[of _ _ _ 4]
        v_value_def entry_def sample_agent_def full_board_def int_arith_def)
  then obtain a s1 b1 where
    t: "take_action int_arith one_way_slide sample_agent full_board = Some (a, s1, b1)"
    and t': "reward_history s1 = [2]"
    by blast
  have al: "aligned sample_agent"
    by (simp add: aligned_def sample_agent_def)
  from histories_aligned[of int_arith no_files "''init=1 alpha=1''" s0 "[]" sample_agent
      one_way_slide full_board a s1 b1 sample_agent] c t al
  have "aligned s0" "reward_history s0 = []" "aligned s1"
    by simp_all
  with c c' t t' al show ?thesis by blast
qed

section \<open>Setting up, saving and loading the tables\<close>

text \<open>
  Claim C10. \<^verbatim>\<open>init_weights\<close> ignores its string argument: whatever the argument, it
  appends exactly 8 tables, each of \<open>25 ^ 4 = 390625\<close> zero entries, to the tables the
  agent already holds, and changes nothing else.
\<close>

theorem init_weights_appends_8_tables:
  "init_weights ar info s =
     s\<lparr>net := net s @ replicate 8 (replicate (25 ^ 4) (f_of_int ar 0))\<rparr> \<and>
   (25 :: nat) ^ 4 = 390625"
  unfolding replicate8 by (simp add: init_weights_def emplace_back_def)



lemma replicate_update_same: "(replicate n x)[i := x] = replicate n x"
  by (cases "i < n") (auto simp: nth_list_update intro!: nth_equalityI)






end
